theory Spec2Isabelle
  imports Main "HOL-Library.Char_ord"
begin

section \<open>Errors, objects and codecs\<close>

text \<open>
  The source is one TypeScript class, \<open>ReactiveFile\<close> (\<open>src/index.ts\<close>). It raises in
  two ways: the explicit \<open>throw new Error('saveTo path must be defined!')\<close> of \<open>from\<close>,
  and the \<open>TypeError\<close> of the JavaScript runtime when \<open>this.types[type][0]\<close> indexes
  \<open>undefined\<close>. A failed file-system call is \<open>FsError\<close>, and a codec function may raise
  an error of its own.
\<close>

datatype error = TypeError | Error string | FsError string | CodecError string

text \<open>\<open>Obj<T> = Record<string, T>\<close>: a dictionary from property names to values.\<close>

type_synonym 'a Obj = "string \<rightharpoonup> 'a"

type_synonym 'a ParseFunction = "string \<Rightarrow> error + 'a Obj"

type_synonym 'a SerializeFunction = "'a Obj \<Rightarrow> error + string"

section \<open>Options\<close>

text \<open>
  \<open>interface LoadOptions\<close>: every field is optional, and \<open>None\<close> is an absent field
  (\<open>undefined\<close>), which is what a destructuring default replaces. The interface admits
  no \<open>null\<close>: a caller that passes \<open>null\<close> for a boolean field or for \<open>encoding\<close> is
  outside the model. For \<open>saveTo\<close> and \<open>type\<close>, whose own default is \<open>null\<close> and which
  are only ever tested for truthiness, \<open>None\<close> stands for that \<open>null\<close> as well.
\<close>

record LoadOptions =
  encoding :: "string option"
  asyncSave :: "bool option"
  saveTo :: "string option"
  deep :: "bool option"
  reactive :: "bool option"
  type :: "string option"

text \<open>JavaScript truthiness of an optional boolean and of an optional string.\<close>

definition truthy :: "bool option \<Rightarrow> bool" where
  "truthy b = (b = Some True)"

definition truthy_str :: "string option \<Rightarrow> bool" where
  "truthy_str s = (case s of None \<Rightarrow> False | Some t \<Rightarrow> t \<noteq> [])"

text \<open>A destructuring default \<open>{x = d}\<close>: the default replaces an absent field only.\<close>

definition with_default :: "'b \<Rightarrow> 'b option \<Rightarrow> 'b option" where
  "with_default d x = (case x of None \<Rightarrow> Some d | Some v \<Rightarrow> Some v)"

text \<open>The property key that \<open>this.types[this.opts.type]\<close> looks up.\<close>

definition type_key :: "string option \<Rightarrow> string" where
  "type_key t = (case t of None \<Rightarrow> ''undefined'' | Some k \<Rightarrow> k)"

section \<open>Paths\<close>

text \<open>
  \<open>parsePath\<close> is \<open>parse\<close> of Node's built-in \<open>path\<close> module, not code of this
  repository. The two fields the class reads are modelled for POSIX paths: \<open>base\<close> is
  the last component of the path, trailing slashes ignored; \<open>ext\<close> runs from the last
  \<open>.\<close> of \<open>base\<close> to its end, and is empty when \<open>base\<close> has no \<open>.\<close>, when its last
  \<open>.\<close> is its first character, and when \<open>base\<close> is \<open>..\<close>; \<open>dir\<close> is what precedes
  the slash in front of \<open>base\<close>. The class only ever reads \<open>ext.slice(1)\<close>, and
  the model of \<open>ext\<close> is meant up to that: whether \<open>ext\<close> is empty or a lone \<open>.\<close>
  makes no difference to it.
\<close>

definition trim_slashes :: "string \<Rightarrow> string" where
  "trim_slashes p = rev (dropWhile (\<lambda>c. c = CHR ''/'') (rev p))"

definition path_base :: "string \<Rightarrow> string" where
  "path_base p = rev (takeWhile (\<lambda>c. c \<noteq> CHR ''/'') (rev (trim_slashes p)))"

definition after_last_dot :: "string \<Rightarrow> string" where
  "after_last_dot b = rev (takeWhile (\<lambda>c. c \<noteq> CHR ''.'') (rev b))"

definition path_ext :: "string \<Rightarrow> string" where
  "path_ext p =
     (let b = path_base p in
      if CHR ''.'' \<notin> set b then []
      else if Suc (length (after_last_dot b)) = length b then []
      else if b = ''..'' then []
      else CHR ''.'' # after_last_dot b)"

definition path_dir :: "string \<Rightarrow> string" where
  "path_dir p =
     (let t = trim_slashes p;
          pre = take (length t - length (path_base p)) t
      in if pre = [] then (if p \<noteq> [] \<and> hd p = CHR ''/'' then ''/'' else [])
         else if pre = ''/'' then ''/''
         else butlast pre)"

text \<open>\<open>type || parsePath(path).ext.slice(1)\<close>, as \<open>load\<close>, \<open>loadSync\<close> and \<open>from\<close> write it.\<close>

definition infer_type :: "string option \<Rightarrow> string \<Rightarrow> string" where
  "infer_type ty p = (if truthy_str ty then the ty else drop 1 (path_ext p))"

section \<open>The world outside the object\<close>

text \<open>
  The program runs on one thread, each call to completion. What it can observe of the
  outside is the static table \<open>ReactiveFile.types\<close>, the contents of the files, and
  whether a directory can be created (\<open>dir_creatable\<close>: it exists already or the file
  system lets it be made) and a file opened for writing. An asynchronous
  \<open>save\<close> that has reached its \<open>await\<close> is a \<open>pending_save\<close>: it holds the text it
  serialized and the directory it asked for. The file-system calls leave \<open>event\<close>s in
  \<open>trace\<close>, in the order they begin and end, and \<open>settled\<close> lists the outcomes of the
  promises of \<open>save\<close> in the order they settle. File contents are the text handed to
  \<open>writeFileSync\<close>: the \<open>encoding\<close> is passed through and not interpreted. A write
  that cannot be done fails when the file is opened and leaves its contents as they were.
\<close>

datatype event = MkdirBegin string | MkdirEnd string | WriteBegin string | WriteEnd string

record pending_save =
  serialized :: string
  dir :: string

record 'a system =
  types :: "string \<rightharpoonup> ('a ParseFunction \<times> 'a SerializeFunction)"
  files :: "string \<rightharpoonup> string"
  dir_creatable :: "string \<Rightarrow> bool"
  write_ok :: "string \<Rightarrow> bool"
  pending :: "pending_save list"
  settled :: "(error + unit) list"
  trace :: "event list"

text \<open>
  \<open>fs.mkdirSync(dir, {recursive: true})\<close> and \<open>fs.promises.mkdir\<close> with the same
  arguments. Node refuses the empty path with \<open>ENOENT\<close>, whatever the file system holds,
  and the empty path is what \<open>parsePath(path).dir\<close> is for a bare file name such as
  \<open>settings.json\<close>.
\<close>

definition mkdir_ok :: "'a system \<Rightarrow> string \<Rightarrow> bool" where
  "mkdir_ok s d = (d \<noteq> [] \<and> dir_creatable s d)"

section \<open>The codec registry\<close>

text \<open>
  \<open>ReactiveFile.types\<close> is an object literal used as a dictionary from format
  strings to pairs \<open>[parse, serialize]\<close>, and is modelled as a map (the field
  \<open>types\<close> of the system). A lookup that finds no pair is \<open>None\<close>, whether it finds
  nothing or a property that every object inherits: indexing and calling what it finds
  raises \<open>TypeError\<close> in both cases. The property name \<open>__proto__\<close>, which JavaScript
  treats as an accessor of the object and not as a key of its own, is not a format
  string of the model.
\<close>

definition registerType ::
  "string \<Rightarrow> 'a ParseFunction \<Rightarrow> 'a SerializeFunction \<Rightarrow> 'a system \<Rightarrow> (error + unit) \<times> 'a system" where
  "registerType ty prs ser s = (Inr (), s\<lparr>types := (types s)(ty \<mapsto> (prs, ser))\<rparr>)"

text \<open>
  \<open>this.types[type] = this.types[from]\<close>: the value found under \<open>from\<close> is stored
  under \<open>type\<close>, whatever it is; storing \<open>undefined\<close> leaves \<open>type\<close> without a codec.
\<close>

definition assignType :: "string \<Rightarrow> string \<Rightarrow> 'a system \<Rightarrow> (error + unit) \<times> 'a system" where
  "assignType ty frm s = (Inr (), s\<lparr>types := (types s)(ty := types s frm)\<rparr>)"

fun registerTypes ::
  "string list \<Rightarrow> 'a ParseFunction \<Rightarrow> 'a SerializeFunction \<Rightarrow> 'a system \<Rightarrow> (error + unit) \<times> 'a system" where
  "registerTypes [] prs ser s = (Inr (), s)"
| "registerTypes (ty # tys) prs ser s =
     (case registerType ty prs ser s of
        (Inl e, s') \<Rightarrow> (Inl e, s')
      | (Inr _, s') \<Rightarrow> registerTypes tys prs ser s')"

fun assignTypes :: "string list \<Rightarrow> string \<Rightarrow> 'a system \<Rightarrow> (error + unit) \<times> 'a system" where
  "assignTypes [] frm s = (Inr (), s)"
| "assignTypes (ty # tys) frm s =
     (case assignType ty frm s of
        (Inl e, s') \<Rightarrow> (Inl e, s')
      | (Inr _, s') \<Rightarrow> assignTypes tys frm s')"

text \<open>
  \<open>this.types[type][0](str)\<close> and \<open>this.types[type][1](obj)\<close>: with nothing stored
  under \<open>type\<close> the index into \<open>undefined\<close> raises \<open>TypeError\<close>.
\<close>

definition parse :: "string \<Rightarrow> string \<Rightarrow> 'a system \<Rightarrow> error + 'a Obj" where
  "parse str ty s = (case types s ty of None \<Rightarrow> Inl TypeError | Some c \<Rightarrow> fst c str)"

definition serialize :: "'a Obj \<Rightarrow> string \<Rightarrow> 'a system \<Rightarrow> error + string" where
  "serialize obj ty s = (case types s ty of None \<Rightarrow> Inl TypeError | Some c \<Rightarrow> snd c obj)"

text \<open>
  The registrations that the module makes when it is loaded, for the \<open>json\<close>,
  \<open>yml\<close>/\<open>yaml\<close>, \<open>toml\<close> and \<open>xml\<close>/\<open>xaml\<close> codecs: pairs of functions of
  \<open>JSON\<close>, \<open>js-yaml\<close>, \<open>@iarna/toml\<close> and \<open>fast-xml-parser\<close>, taken as parameters.
\<close>

definition register_builtin ::
  "'a ParseFunction \<times> 'a SerializeFunction \<Rightarrow> 'a ParseFunction \<times> 'a SerializeFunction \<Rightarrow>
   'a ParseFunction \<times> 'a SerializeFunction \<Rightarrow> 'a ParseFunction \<times> 'a SerializeFunction \<Rightarrow>
   'a system \<Rightarrow> 'a system" where
  "register_builtin json yml toml xml s =
     snd (registerTypes [''xml'', ''xaml''] (fst xml) (snd xml)
       (snd (registerType ''toml'' (fst toml) (snd toml)
         (snd (registerTypes [''yml'', ''yaml''] (fst yml) (snd yml)
           (snd (registerType ''json'' (fst json) (snd json) s)))))))"

section \<open>The bound document\<close>

text \<open>
  The fields of the class, and \<open>observed\<close>: what \<open>observeData\<close> has attached to
  \<open>val\<close> (\<open>None\<close> before the first call, \<open>Some deep\<close> after it).
\<close>

record 'a ReactiveFile =
  val :: "'a Obj"
  path :: "string option"
  opts :: LoadOptions
  observed :: "bool option"

type_synonym 'a state = "'a ReactiveFile \<times> 'a system"

text \<open>
  \<open>saveSync\<close>: serialize, create the directory, write. An exception leaves the method
  where it is raised.
\<close>

definition saveSync :: "'a state \<Rightarrow> (error + unit) \<times> 'a state" where
  "saveSync st =
     (let d = fst st; s = snd st in
      case serialize (val d) (type_key (type (opts d))) s of
        Inl e \<Rightarrow> (Inl e, st)
      | Inr text \<Rightarrow>
          (case path d of
             None \<Rightarrow> (Inl TypeError, st)
           | Some p \<Rightarrow>
               if \<not> mkdir_ok s (path_dir p) then
                 (Inl (FsError ''mkdir''),
                  (d, s\<lparr>trace := trace s @ [MkdirBegin (path_dir p), MkdirEnd (path_dir p)]\<rparr>))
               else if \<not> write_ok s p then
                 (Inl (FsError ''write''),
                  (d, s\<lparr>trace := trace s @ [MkdirBegin (path_dir p), MkdirEnd (path_dir p),
                                             WriteBegin p, WriteEnd p]\<rparr>))
               else
                 (Inr (),
                  (d, s\<lparr>files := (files s)(p \<mapsto> text),
                         trace := trace s @ [MkdirBegin (path_dir p), MkdirEnd (path_dir p),
                                             WriteBegin p, WriteEnd p]\<rparr>))))"

text \<open>
  \<open>async save\<close>, up to its \<open>await\<close>: the body runs synchronously as far as the call of
  \<open>fs.promises.mkdir\<close>, and an exception before that rejects the promise at once. The
  caller gets the promise and goes on.
\<close>

definition save :: "'a state \<Rightarrow> 'a state" where
  "save st =
     (let d = fst st; s = snd st in
      case serialize (val d) (type_key (type (opts d))) s of
        Inl e \<Rightarrow> (d, s\<lparr>settled := settled s @ [Inl e]\<rparr>)
      | Inr text \<Rightarrow>
          (case path d of
             None \<Rightarrow> (d, s\<lparr>settled := settled s @ [Inl TypeError]\<rparr>)
           | Some p \<Rightarrow>
               (d, s\<lparr>pending := pending s @ [\<lparr>serialized = text, dir = path_dir p\<rparr>],
                      trace := trace s @ [MkdirBegin (path_dir p)]\<rparr>)))"

text \<open>
  The rest of \<open>save\<close>, run by the event loop when the \<open>mkdir\<close> of the \<open>i\<close>-th pending
  save has finished: \<open>fs.writeFileSync(this.path, serialized, ...)\<close>, with \<open>this.path\<close>
  read at that moment, and the promise settles.
\<close>

definition resume_save :: "nat \<Rightarrow> 'a state \<Rightarrow> 'a state" where
  "resume_save i st =
     (let d = fst st; s = snd st in
      if length (pending s) \<le> i then st
      else
        let job = pending s ! i;
            s1 = s\<lparr>pending := take i (pending s) @ drop (Suc i) (pending s)\<rparr>
        in if \<not> mkdir_ok s (dir job) then
             (d, s1\<lparr>settled := settled s @ [Inl (FsError ''mkdir'')],
                     trace := trace s @ [MkdirEnd (dir job)]\<rparr>)
           else
             (case path d of
                None \<Rightarrow>
                  (d, s1\<lparr>settled := settled s @ [Inl TypeError],
                          trace := trace s @ [MkdirEnd (dir job)]\<rparr>)
              | Some p \<Rightarrow>
                  if \<not> write_ok s p then
                    (d, s1\<lparr>settled := settled s @ [Inl (FsError ''write'')],
                            trace := trace s @ [MkdirEnd (dir job), WriteBegin p, WriteEnd p]\<rparr>)
                  else
                    (d, s1\<lparr>files := (files s)(p \<mapsto> serialized job),
                            settled := settled s @ [Inr ()],
                            trace := trace s @ [MkdirEnd (dir job), WriteBegin p, WriteEnd p]\<rparr>)))"

text \<open>
  The closure \<open>notify\<close> of \<open>react\<close>: \<open>this.save()\<close> without \<open>await\<close>, its promise
  dropped, or \<open>this.saveSync()\<close>.
\<close>

definition notify :: "'a state \<Rightarrow> (error + unit) \<times> 'a state" where
  "notify st =
     (if truthy (asyncSave (opts (fst st))) then (Inr (), save st) else saveSync st)"

text \<open>
  Modelled from the spec: \<open>observeData\<close> of \<open>./react\<close>, which is not among the sources.
  The spec's Change Observer instruments the root in place, replaces any earlier
  observation, and does nothing else at the call; with \<open>deep\<close> it also covers the
  containers inside the root.
\<close>

definition observeData :: "bool option \<Rightarrow> 'a ReactiveFile \<Rightarrow> 'a ReactiveFile" where
  "observeData dp d = d\<lparr>observed := Some (truthy dp)\<rparr>"

definition react :: "'a state \<Rightarrow> (error + unit) \<times> 'a state" where
  "react st =
     (if \<not> truthy (reactive (opts (fst st))) then (Inr (), st)
      else notify (observeData (deep (opts (fst st))) (fst st), snd st))"

text \<open>The constructor; an exception of \<open>react\<close> leaves no object.\<close>

definition ReactiveFile_new ::
  "'a Obj \<Rightarrow> LoadOptions \<Rightarrow> string option \<Rightarrow> 'a system \<Rightarrow> (error + 'a ReactiveFile) \<times> 'a system" where
  "ReactiveFile_new v os p s =
     (case react (\<lparr>val = v,
                   path = (if truthy_str (saveTo os) then saveTo os else p),
                   opts = os,
                   observed = None\<rparr>, s) of
        (Inl e, st) \<Rightarrow> (Inl e, snd st)
      | (Inr _, st) \<Rightarrow> (Inr (fst st), snd st))"

text \<open>The options object \<open>{encoding, asyncSave, saveTo, deep, reactive, type}\<close>.\<close>

definition resolved :: "LoadOptions \<Rightarrow> string \<Rightarrow> LoadOptions" where
  "resolved os ty =
     \<lparr>encoding = with_default ''utf8'' (encoding os),
      asyncSave = with_default True (asyncSave os),
      saveTo = saveTo os,
      deep = with_default True (deep os),
      reactive = with_default True (reactive os),
      type = Some ty\<rparr>"

text \<open>
  \<open>load\<close> and \<open>loadSync\<close>: they differ in whether the caller is suspended during the
  read, not in what they compute from the file's contents.
\<close>

definition load :: "string \<Rightarrow> LoadOptions \<Rightarrow> 'a system \<Rightarrow> (error + 'a ReactiveFile) \<times> 'a system" where
  "load p os s =
     (let ty = infer_type (type os) p in
      case files s p of
        None \<Rightarrow> (Inl (FsError ''read''), s)
      | Some data \<Rightarrow>
          (case parse data ty s of
             Inl e \<Rightarrow> (Inl e, s)
           | Inr parsed \<Rightarrow> ReactiveFile_new parsed (resolved os ty) (Some p) s))"

definition loadSync :: "string \<Rightarrow> LoadOptions \<Rightarrow> 'a system \<Rightarrow> (error + 'a ReactiveFile) \<times> 'a system" where
  "loadSync p os s =
     (let ty = infer_type (type os) p in
      case files s p of
        None \<Rightarrow> (Inl (FsError ''read''), s)
      | Some data \<Rightarrow>
          (case parse data ty s of
             Inl e \<Rightarrow> (Inl e, s)
           | Inr parsed \<Rightarrow> ReactiveFile_new parsed (resolved os ty) (Some p) s))"

text \<open>The static method \<open>from\<close>.\<close>

definition from_obj :: "'a Obj \<Rightarrow> LoadOptions \<Rightarrow> 'a system \<Rightarrow> (error + 'a ReactiveFile) \<times> 'a system" where
  "from_obj obj os s =
     (if \<not> truthy_str (saveTo os) then (Inl (Error ''saveTo path must be defined!''), s)
      else ReactiveFile_new obj (resolved os (infer_type (type os) (the (saveTo os)))) None s)"

section \<open>Mutations of the bound object\<close>

text \<open>
  What a caller does to \<open>doc.val\<close>: set or delete a property of the root, or change
  something inside the container stored under a property (\<open>doc.val.k.x = 2\<close>,
  \<open>doc.val.k.push(3)\<close>), which raises \<open>TypeError\<close> when the root has no such property.
\<close>

datatype 'a mutation = SetProp string 'a | DeleteProp string | MutateNested string "'a \<Rightarrow> 'a"

fun apply_mutation :: "'a mutation \<Rightarrow> 'a Obj \<Rightarrow> error + 'a Obj" where
  "apply_mutation (SetProp k v) obj = Inr (obj(k \<mapsto> v))"
| "apply_mutation (DeleteProp k) obj = Inr (obj(k := None))"
| "apply_mutation (MutateNested k f) obj =
     (case obj k of None \<Rightarrow> Inl TypeError | Some v \<Rightarrow> Inr (obj(k \<mapsto> f v)))"

fun nested :: "'a mutation \<Rightarrow> bool" where
  "nested (MutateNested k f) = True"
| "nested m = False"

text \<open>
  Modelled from the spec: the callback of the Change Observer of \<open>./react\<close>, which is
  not among the sources. On an observed object, \<open>onChange\<close> runs once per mutation,
  synchronously and after the mutation has taken effect; a mutation inside a nested
  container is seen in deep mode only. An object that was never observed is a plain
  object: the mutation takes effect and nothing else happens.
\<close>

definition notifies :: "bool option \<Rightarrow> 'a mutation \<Rightarrow> bool" where
  "notifies ob m = (case ob of None \<Rightarrow> False | Some dp \<Rightarrow> (if nested m then dp else True))"

text \<open>
  Modelled from the spec: a mutating statement of the caller on the bound object, whose
  interception belongs to \<open>./react\<close>, which is not among the sources. The mutation
  takes effect first; then, if the observation covers it, the callback \<open>notify\<close> runs
  within the statement, and an exception of a blocking save leaves the statement.
\<close>

definition mutate :: "'a mutation \<Rightarrow> 'a state \<Rightarrow> (error + unit) \<times> 'a state" where
  "mutate m st =
     (case apply_mutation m (val (fst st)) of
        Inl e \<Rightarrow> (Inl e, st)
      | Inr v \<Rightarrow>
          if notifies (observed (fst st)) m then notify ((fst st)\<lparr>val := v\<rparr>, snd st)
          else (Inr (), ((fst st)\<lparr>val := v\<rparr>, snd st)))"

section \<open>Runs\<close>

text \<open>
  What can happen to a document once it exists: the caller mutates it or calls one of
  its methods, or the event loop resumes a pending save. The pending saves may be
  resumed in any order: the order in which the directory operations finish is not the
  program's to choose. An exception reaches the caller, who goes on.
\<close>

datatype 'a action = Mutate "'a mutation" | Save | SaveSync | React | Resume nat

fun step :: "'a action \<Rightarrow> 'a state \<Rightarrow> 'a state" where
  "step (Mutate m) st = snd (mutate m st)"
| "step Save st = save st"
| "step SaveSync st = snd (saveSync st)"
| "step React st = snd (react st)"
| "step (Resume i) st = resume_save i st"

definition run :: "'a action list \<Rightarrow> 'a state \<Rightarrow> 'a state" where
  "run acts st = fold step acts st"

text \<open>
  No two writes overlap in a trace when every \<open>WriteBegin\<close> is followed at once by the
  \<open>WriteEnd\<close> of the same path, and no \<open>WriteEnd\<close> stands alone.
\<close>

fun writes_serialized :: "event list \<Rightarrow> bool" where
  "writes_serialized [] = True"
| "writes_serialized (WriteBegin p # WriteEnd q # es) = (p = q \<and> writes_serialized es)"
| "writes_serialized (WriteBegin p # es) = False"
| "writes_serialized (WriteEnd q # es) = False"
| "writes_serialized (e # es) = writes_serialized es"

fun is_write :: "event \<Rightarrow> bool" where
  "is_write (WriteBegin p) = True"
| "is_write (WriteEnd p) = True"
| "is_write e = False"

text \<open>
  The format identifier as the spec words it: the text after the last \<open>.\<close> of the file
  name, lower-cased.
\<close>

definition lower_char :: "char \<Rightarrow> char" where
  "lower_char c =
     (if CHR ''A'' \<le> c \<and> c \<le> CHR ''Z'' then char_of (of_char c + (32::nat)) else c)"

definition spec_format :: "string \<Rightarrow> string" where
  "spec_format p = map lower_char (after_last_dot (path_base p))"

text \<open>The options of a call that passes none: the default \<open>= {}\<close> of the parameter.\<close>

definition no_options :: LoadOptions where
  "no_options = \<lparr>encoding = None, asyncSave = None, saveTo = None, deep = None,
                  reactive = None, type = None\<rparr>"

section \<open>Predicates on actions and states\<close>

text \<open>The actions of a caller who never calls \<open>save\<close> or \<open>saveSync\<close>.\<close>

fun caller_only :: "'a action \<Rightarrow> bool" where
  "caller_only (Mutate m) = True"
| "caller_only React = True"
| "caller_only a = False"

text \<open>
  Where the pending save that stands at place \<open>k\<close> of the queue stands after the
  actions, and \<open>None\<close> if they resume it: a resumption in front of it moves it one
  place forward, nothing else moves it.
\<close>

fun queue_position :: "'a action list \<Rightarrow> nat \<Rightarrow> nat option" where
  "queue_position [] k = Some k"
| "queue_position (Resume i # acts) k =
     (if i = k then None else queue_position acts (if i < k then k - 1 else k))"
| "queue_position (a # acts) k = queue_position acts k"

text \<open>
  A document whose bound path has no directory part, with only saves of its own in the
  queue and no save that has settled well so far.
\<close>

definition bare_bound :: "'a state \<Rightarrow> bool" where
  "bare_bound st =
     ((case path (fst st) of None \<Rightarrow> False | Some b \<Rightarrow> path_dir b = []) \<and>
      list_all (\<lambda>job. dir job = []) (pending (snd st)) \<and>
      Inr () \<notin> set (settled (snd st)))"

text \<open>What no method changes: the binding of the document and the environment.\<close>

definition same_binding :: "'a state \<Rightarrow> 'a state \<Rightarrow> bool" where
  "same_binding st st' =
     (opts (fst st') = opts (fst st) \<and> path (fst st') = path (fst st) \<and>
      types (snd st') = types (snd st) \<and> dir_creatable (snd st') = dir_creatable (snd st) \<and>
      write_ok (snd st') = write_ok (snd st))"

text \<open>The object is observed, with the \<open>deep\<close> flag of the document's own options.\<close>

definition armed :: "'a state \<Rightarrow> bool" where
  "armed st = (observed (fst st) = Some (truthy (deep (opts (fst st)))))"

section \<open>A small codec and world for the examples\<close>

text \<open>
  A format \<open>toy\<close> whose text is a row of \<open>x\<close>, as many as the property \<open>n\<close> says; a
  world with that format registered and two files; the document and the world that
  loading \<open>conf/settings.toy\<close> with no options gives; and the same with
  \<open>reactive: false\<close>. Then a world whose only file is \<open>settings.toy\<close>, in the
  working directory, with the document and the world that loading it with no options
  gives, and the options of a blocking load and of an adoption to
  \<open>conf/settings.toy\<close>.
\<close>

definition toy_parse :: "int ParseFunction" where
  "toy_parse str = Inr [''n'' \<mapsto> int (length str)]"

definition toy_serialize :: "int SerializeFunction" where
  "toy_serialize obj =
     (case obj ''n'' of None \<Rightarrow> Inl (CodecError ''n'') | Some n \<Rightarrow> Inr (replicate (nat n) CHR ''x''))"

definition toy_system :: "int system" where
  "toy_system =
     \<lparr>types = [''toy'' \<mapsto> (toy_parse, toy_serialize)],
      files = [''conf/settings.toy'' \<mapsto> ''xx'', ''f.unknownext'' \<mapsto> ''x''],
      dir_creatable = (\<lambda>d. True),
      write_ok = (\<lambda>p. True),
      pending = [],
      settled = [],
      trace = []\<rparr>"

definition toy_doc :: "int ReactiveFile" where
  "toy_doc = \<lparr>val = [''n'' \<mapsto> 2], path = Some ''conf/settings.toy'',
              opts = resolved no_options ''toy'', observed = Some True\<rparr>"

definition toy_loaded :: "int system" where
  "toy_loaded = toy_system\<lparr>pending := [\<lparr>serialized = ''xx'', dir = ''conf''\<rparr>],
                          trace := [MkdirBegin ''conf'']\<rparr>"

definition quiet_options :: LoadOptions where
  "quiet_options = no_options\<lparr>reactive := Some False\<rparr>"

definition quiet_doc :: "int ReactiveFile" where
  "quiet_doc = \<lparr>val = [''n'' \<mapsto> 2], path = Some ''conf/settings.toy'',
                opts = resolved quiet_options ''toy'', observed = None\<rparr>"

definition bare_system :: "int system" where
  "bare_system = toy_system\<lparr>files := [''settings.toy'' \<mapsto> ''xx'']\<rparr>"

definition bare_doc :: "int ReactiveFile" where
  "bare_doc = \<lparr>val = [''n'' \<mapsto> 2], path = Some ''settings.toy'',
               opts = resolved no_options ''toy'', observed = Some True\<rparr>"

definition bare_loaded :: "int system" where
  "bare_loaded = bare_system\<lparr>pending := [\<lparr>serialized = ''xx'', dir = []\<rparr>],
                            trace := [MkdirBegin []]\<rparr>"



section \<open>The registry when the module is loaded\<close>

lemma builtin_types:
  "types (register_builtin j y t x s)
   = (types s)(''json'' \<mapsto> j, ''yml'' \<mapsto> y, ''yaml'' \<mapsto> y, ''toml'' \<mapsto> t,
               ''xml'' \<mapsto> x, ''xaml'' \<mapsto> x)"
  by (simp add: register_builtin_def registerType_def)

section \<open>Paths with a file name and an extension\<close>

lemma base_of_file:
  assumes "name \<noteq> []" "CHR ''/'' \<notin> set name" "CHR ''/'' \<notin> set e"
    and "pre = [] \<or> last pre = CHR ''/''"
  shows "path_base (pre @ name @ ''.'' @ e) = name @ ''.'' @ e"
proof -
  let ?b = "name @ ''.'' @ e"
  have nz: "rev ?b \<noteq> []" by simp
  have hdb: "hd (rev ?b @ rev pre) \<noteq> CHR ''/''"
    using assms(3) by (cases e rule: rev_cases) auto
  have "dropWhile (\<lambda>c. c = CHR ''/'') (rev ?b @ rev pre) = rev ?b @ rev pre"
    using hdb by (simp only: dropWhile_eq_self_iff) simp
  then have trim: "trim_slashes (pre @ ?b) = pre @ ?b"
    by (simp add: trim_slashes_def)
  have noslash: "\<And>x. x \<in> set (rev ?b) \<Longrightarrow> x \<noteq> CHR ''/''"
    using assms(2,3) by auto
  have pre: "takeWhile (\<lambda>c. c \<noteq> CHR ''/'') (rev pre) = []"
    using assms(4) by (cases pre rule: rev_cases) auto
  have "takeWhile (\<lambda>c. c \<noteq> CHR ''/'') (rev ?b @ rev pre)
        = rev ?b @ takeWhile (\<lambda>c. c \<noteq> CHR ''/'') (rev pre)"
    by (rule takeWhile_append2) (use noslash in auto)
  with pre have "takeWhile (\<lambda>c. c \<noteq> CHR ''/'') (rev ?b @ rev pre) = rev ?b"
    by simp
  then show ?thesis
    unfolding path_base_def trim by simp
qed

lemma after_last_dot_file:
  assumes "CHR ''.'' \<notin> set e"
  shows "after_last_dot (name @ ''.'' @ e) = e"
proof -
  have "takeWhile (\<lambda>c. c \<noteq> CHR ''.'') (rev e @ (CHR ''.'' # rev name))
        = rev e @ takeWhile (\<lambda>c. c \<noteq> CHR ''.'') (CHR ''.'' # rev name)"
    by (rule takeWhile_append2) (use assms in auto)
  then show ?thesis by (simp add: after_last_dot_def)
qed

section \<open>The constructor\<close>

text \<open>
  What \<open>new ReactiveFile\<close> returns: nothing happens without \<open>reactive\<close>; with it, one
  save has been issued when the constructor returns.
\<close>

lemma mkdir_ok_upd [simp]:
  "mkdir_ok (s\<lparr>pending := ps\<rparr>) = mkdir_ok s"
  "mkdir_ok (s\<lparr>trace := tr\<rparr>) = mkdir_ok s"
  "mkdir_ok (s\<lparr>settled := se\<rparr>) = mkdir_ok s"
  "mkdir_ok (s\<lparr>files := fs\<rparr>) = mkdir_ok s"
  "mkdir_ok (s\<lparr>types := ts\<rparr>) = mkdir_ok s"
  by (simp_all add: mkdir_ok_def fun_eq_iff)

lemma mkdir_empty [simp]: "\<not> mkdir_ok s []"
  by (simp add: mkdir_ok_def)

lemma new_not_reactive:
  assumes "\<not> truthy (reactive os)"
  shows "ReactiveFile_new v os p s =
           (Inr \<lparr>val = v, path = (if truthy_str (saveTo os) then saveTo os else p),
                 opts = os, observed = None\<rparr>, s)"
  using assms by (simp add: ReactiveFile_new_def react_def)

lemma new_reactive_async:
  assumes "truthy (reactive os)" and "truthy (asyncSave os)"
    and "serialize v (type_key (type os)) s = Inr text"
    and "(if truthy_str (saveTo os) then saveTo os else p) = Some b"
  shows "ReactiveFile_new v os p s =
           (Inr \<lparr>val = v, path = Some b, opts = os, observed = Some (truthy (deep os))\<rparr>,
            s\<lparr>pending := pending s @ [\<lparr>serialized = text, dir = path_dir b\<rparr>],
              trace := trace s @ [MkdirBegin (path_dir b)]\<rparr>)"
  using assms
  by (simp add: ReactiveFile_new_def react_def notify_def observeData_def save_def)


lemma truthy_default: "truthy (with_default True x) = (x \<noteq> Some False)"
  by (cases x) (auto simp: truthy_def with_default_def)

lemma resolved_simps:
  "reactive (resolved os ty) = with_default True (reactive os)"
  "asyncSave (resolved os ty) = with_default True (asyncSave os)"
  "deep (resolved os ty) = with_default True (deep os)"
  "saveTo (resolved os ty) = saveTo os"
  "type (resolved os ty) = Some ty"
  by (simp_all add: resolved_def)

lemma loadSync_load: "loadSync p os s = load p os s"
  by (simp add: loadSync_def load_def)

text \<open>No save touches the fields of the document.\<close>

lemma save_fst: "fst (save st) = fst st"
  by (simp add: save_def Let_def split: sum.splits option.splits)

lemma saveSync_fst: "fst (snd (saveSync st)) = fst st"
  by (simp add: saveSync_def Let_def split: sum.splits option.splits)

lemma resume_fst: "fst (resume_save i st) = fst st"
  by (simp add: resume_save_def Let_def split: sum.splits option.splits)

lemma notify_fst: "fst (snd (notify st)) = fst st"
  by (simp add: notify_def save_fst saveSync_fst)

lemma new_fields:
  assumes "ReactiveFile_new v os q s = (Inr d, s')"
  shows "opts d = os \<and> path d = (if truthy_str (saveTo os) then saveTo os else q) \<and>
         observed d = (if truthy (reactive os) then Some (truthy (deep os)) else None) \<and>
         (\<not> truthy (reactive os) \<longrightarrow> s' = s)"
proof (cases "truthy (reactive os)")
  case False
  with assms show ?thesis by (auto simp: new_not_reactive)
next
  case True
  let ?d = "\<lparr>val = v, path = (if truthy_str (saveTo os) then saveTo os else q),
              opts = os, observed = None\<rparr>"
  let ?st = "(observeData (deep os) ?d, s)"
  have r: "react (?d, s) = notify ?st"
    using True by (simp add: react_def)
  have "fst (snd (notify ?st)) = observeData (deep os) ?d"
    by (simp add: notify_fst)
  moreover from assms r have "d = fst (snd (notify ?st))"
    by (auto simp: ReactiveFile_new_def split: prod.splits sum.splits)
  ultimately have "d = observeData (deep os) ?d" by simp
  with True show ?thesis by (simp add: observeData_def)
qed

lemma constructed_fields:
  assumes "load p os s = (Inr d, s') \<or> loadSync p os s = (Inr d, s') \<or>
           from_obj obj os s = (Inr d, s')"
  shows "\<exists>ty q. opts d = resolved os ty \<and>
           path d = (if truthy_str (saveTo os) then saveTo os else q) \<and>
           observed d = (if reactive os \<noteq> Some False then Some (deep os \<noteq> Some False) else None) \<and>
           (reactive os = Some False \<longrightarrow> s' = s)"
proof -
  from assms obtain v ty q where "ReactiveFile_new v (resolved os ty) q s = (Inr d, s')"
    by (auto simp: loadSync_load load_def from_obj_def Let_def
             split: option.splits sum.splits if_splits)
  from new_fields [OF this] show ?thesis
    by (auto simp: resolved_simps truthy_default)
qed

lemma load_fields:
  assumes "load p os s = (Inr d, s')"
  shows "opts d = resolved os (infer_type (type os) p) \<and>
         path d = Some (if truthy_str (saveTo os) then the (saveTo os) else p) \<and>
         observed d = (if reactive os \<noteq> Some False then Some (deep os \<noteq> Some False) else None)"
proof -
  let ?ty = "infer_type (type os) p"
  from assms obtain v where "ReactiveFile_new v (resolved os ?ty) (Some p) s = (Inr d, s')"
    by (auto simp: load_def Let_def split: option.splits sum.splits)
  from new_fields [OF this] show ?thesis
    by (auto simp: resolved_simps truthy_default truthy_str_def split: option.splits)
qed

section \<open>What stays the same along a run\<close>

lemma same_binding_mkdir: "same_binding st st' \<Longrightarrow> mkdir_ok (snd st') = mkdir_ok (snd st)"
  by (simp add: same_binding_def mkdir_ok_def fun_eq_iff)

lemma same_binding_refl: "same_binding st st"
  by (simp add: same_binding_def)

lemma same_binding_trans: "same_binding a b \<Longrightarrow> same_binding b c \<Longrightarrow> same_binding a c"
  by (simp add: same_binding_def)

lemma save_binding: "same_binding st (save st)"
  by (simp add: same_binding_def save_def Let_def split: sum.splits option.splits)

lemma saveSync_binding: "same_binding st (snd (saveSync st))"
  by (simp add: same_binding_def saveSync_def Let_def split: sum.splits option.splits)

lemma resume_binding: "same_binding st (resume_save i st)"
  by (simp add: same_binding_def resume_save_def Let_def split: sum.splits option.splits)

lemma notify_binding: "same_binding st (snd (notify st))"
  using save_binding [of st] saveSync_binding [of st] by (simp add: notify_def)

lemma react_binding: "same_binding st (snd (react st))"
proof (cases "truthy (reactive (opts (fst st)))")
  case True
  let ?st = "(observeData (deep (opts (fst st))) (fst st), snd st)"
  have "same_binding st ?st" by (simp add: same_binding_def observeData_def)
  with notify_binding [of ?st] True show ?thesis
    by (auto simp: react_def intro: same_binding_trans)
next
  case False
  then show ?thesis by (simp add: react_def same_binding_refl)
qed

lemma mutate_binding: "same_binding st (snd (mutate m st))"
proof (cases "apply_mutation m (val (fst st))")
  case (Inl e)
  then show ?thesis by (simp add: mutate_def same_binding_refl)
next
  case (Inr v)
  let ?st = "((fst st)\<lparr>val := v\<rparr>, snd st)"
  have b: "same_binding st ?st" by (simp add: same_binding_def)
  from b notify_binding [of ?st] have "same_binding st (snd (notify ?st))"
    by (rule same_binding_trans)
  with b Inr show ?thesis by (simp add: mutate_def)
qed

lemma step_binding: "same_binding st (step a st)"
  by (cases a)
     (simp_all add: mutate_binding save_binding saveSync_binding react_binding resume_binding)

lemma run_binding: "same_binding st (run acts st)"
proof (induction acts arbitrary: st)
  case Nil
  show ?case by (simp add: run_def same_binding_refl)
next
  case (Cons a acts)
  have "same_binding st (step a st)" by (rule step_binding)
  moreover have "same_binding (step a st) (run acts (step a st))" by (rule Cons.IH)
  ultimately show ?case
    using same_binding_trans by (fastforce simp: run_def)
qed

lemma react_armed: "armed st \<Longrightarrow> armed (snd (react st))"
  by (simp add: armed_def react_def notify_fst observeData_def)

lemma mutate_armed: "armed st \<Longrightarrow> armed (snd (mutate m st))"
  by (cases "apply_mutation m (val (fst st))") (simp_all add: armed_def mutate_def notify_fst)

lemma step_armed: "armed st \<Longrightarrow> armed (step a st)"
  by (cases a)
     (simp_all add: mutate_armed react_armed, simp_all add: armed_def save_fst saveSync_fst resume_fst)

lemma run_armed: "armed st \<Longrightarrow> armed (run acts st)"
  by (induction acts arbitrary: st) (simp_all add: run_def step_armed)

section \<open>Successful saves\<close>

lemma saveSync_ok:
  assumes "serialize (val d) (type_key (type (opts d))) s = Inr text"
    and "path d = Some b" and "mkdir_ok s (path_dir b)" and "write_ok s b"
  shows "saveSync (d, s) =
           (Inr (), (d, s\<lparr>files := (files s)(b \<mapsto> text),
                           trace := trace s @ [MkdirBegin (path_dir b), MkdirEnd (path_dir b),
                                               WriteBegin b, WriteEnd b]\<rparr>))"
  using assms by (simp add: saveSync_def)

lemma save_ok:
  assumes "serialize (val d) (type_key (type (opts d))) s = Inr text" and "path d = Some b"
  shows "save (d, s) =
           (d, s\<lparr>pending := pending s @ [\<lparr>serialized = text, dir = path_dir b\<rparr>],
                  trace := trace s @ [MkdirBegin (path_dir b)]\<rparr>)"
  using assms by (simp add: save_def)

lemma resume_last:
  assumes "pending s' = pending s @ [job]" and "mkdir_ok s' (dir job)"
    and "path d = Some b" and "write_ok s' b"
  shows "files (snd (resume_save (length (pending s)) (d, s'))) = (files s')(b \<mapsto> serialized job) \<and>
         fst (resume_save (length (pending s)) (d, s')) = d \<and>
         types (snd (resume_save (length (pending s)) (d, s'))) = types s' \<and>
         pending (snd (resume_save (length (pending s)) (d, s'))) = pending s"
  using assms by (simp add: resume_save_def Let_def)

lemma resume_at:
  assumes "i < length (pending s)" and "pending s ! i = job" and "mkdir_ok s (dir job)"
    and "path d = Some b" and "write_ok s b"
  shows "files (snd (resume_save i (d, s))) = (files s)(b \<mapsto> serialized job) \<and>
         trace (snd (resume_save i (d, s)))
           = trace s @ [MkdirEnd (dir job), WriteBegin b, WriteEnd b] \<and>
         settled (snd (resume_save i (d, s))) = settled s @ [Inr ()] \<and>
         fst (resume_save i (d, s)) = d"
  using assms by (simp add: resume_save_def Let_def)

lemma notify_async:
  assumes "truthy (asyncSave (opts d))"
    and "serialize (val d) (type_key (type (opts d))) s = Inr text" and "path d = Some b"
  shows "notify (d, s) =
           (Inr (), (d, s\<lparr>pending := pending s @ [\<lparr>serialized = text, dir = path_dir b\<rparr>],
                           trace := trace s @ [MkdirBegin (path_dir b)]\<rparr>))"
  using assms save_ok [OF assms(2,3)] by (simp add: notify_def)

lemma notify_async_rejected:
  assumes "truthy (asyncSave (opts d))"
    and "serialize (val d) (type_key (type (opts d))) s = Inl e"
  shows "notify (d, s) = (Inr (), (d, s\<lparr>settled := settled s @ [Inl e]\<rparr>))"
  using assms by (simp add: notify_def save_def)

section \<open>The queue of pending saves\<close>

text \<open>
  Only a resumption takes a save off the queue. A pending save that the actions do not
  resume is found at its tracked place, and it writes its own text when it is resumed,
  whatever has happened in between and in whatever order the other saves were resumed.
\<close>

lemma save_pending: "\<exists>more. pending (snd (save st)) = pending (snd st) @ more"
  by (simp add: save_def Let_def split: sum.splits option.splits)

lemma saveSync_pending: "pending (snd (snd (saveSync st))) = pending (snd st)"
  by (simp add: saveSync_def Let_def split: sum.splits option.splits)

lemma notify_pending: "\<exists>more. pending (snd (snd (notify st))) = pending (snd st) @ more"
  using save_pending [of st] by (simp add: notify_def saveSync_pending)

lemma react_pending: "\<exists>more. pending (snd (snd (react st))) = pending (snd st) @ more"
proof (cases "truthy (reactive (opts (fst st)))")
  case True
  with notify_pending [of "(observeData (deep (opts (fst st))) (fst st), snd st)"]
  show ?thesis by (simp add: react_def)
next
  case False
  then show ?thesis by (simp add: react_def)
qed

lemma mutate_pending: "\<exists>more. pending (snd (snd (mutate m st))) = pending (snd st) @ more"
proof (cases "apply_mutation m (val (fst st))")
  case (Inl e)
  then show ?thesis by (simp add: mutate_def)
next
  case (Inr v)
  with notify_pending [of "((fst st)\<lparr>val := v\<rparr>, snd st)"] show ?thesis
    by (simp add: mutate_def)
qed

lemma resume_pending:
  "pending (snd (resume_save i st)) =
     (if i < length (pending (snd st))
      then take i (pending (snd st)) @ drop (Suc i) (pending (snd st))
      else pending (snd st))"
  by (simp add: resume_save_def Let_def split: option.splits)

lemma nth_after_removal:
  assumes "k < length xs" and "i \<noteq> k" and "i < length xs"
  shows "(if i < k then k - 1 else k) < length (take i xs @ drop (Suc i) xs) \<and>
         (take i xs @ drop (Suc i) xs) ! (if i < k then k - 1 else k) = xs ! k"
proof (cases "i < k")
  case True
  have l: "length (take i xs) = i" using assms(3) by simp
  from True have n: "\<not> k - 1 < i" by arith
  from True have e: "Suc i + (k - 1 - i) = k" by arith
  from n have "(take i xs @ drop (Suc i) xs) ! (k - 1) = drop (Suc i) xs ! (k - 1 - i)"
    by (simp only: nth_append l if_False)
  also have "\<dots> = xs ! (Suc i + (k - 1 - i))"
    using assms(3) by (intro nth_drop) simp
  finally have "(take i xs @ drop (Suc i) xs) ! (k - 1) = xs ! k"
    by (simp only: e)
  moreover have "k - 1 < length (take i xs @ drop (Suc i) xs)"
    using True assms(1,3) by simp
  ultimately show ?thesis using True by simp
next
  case False
  with assms have "k < i" by simp
  then show ?thesis using assms False by (simp add: nth_append min_def)
qed

lemma step_tracks:
  assumes "k < length (pending (snd st))" and "queue_position [a] k = Some k'"
  shows "k' < length (pending (snd (step a st))) \<and>
         pending (snd (step a st)) ! k' = pending (snd st) ! k"
proof (cases a)
  case (Mutate m)
  with mutate_pending [of m st] assms show ?thesis by (auto simp: nth_append)
next
  case Save
  with save_pending [of st] assms show ?thesis by (auto simp: nth_append)
next
  case SaveSync
  with assms show ?thesis by (simp add: saveSync_pending)
next
  case React
  with react_pending [of st] assms show ?thesis by (auto simp: nth_append)
next
  case (Resume i)
  with assms(2) have ne: "i \<noteq> k" and k': "k' = (if i < k then k - 1 else k)"
    by (auto split: if_splits)
  show ?thesis
  proof (cases "i < length (pending (snd st))")
    case True
    from nth_after_removal [OF assms(1) ne True] Resume k' True show ?thesis
      by (simp add: resume_pending)
  next
    case False
    with assms(1) have "\<not> i < k" by simp
    with False Resume k' assms(1) show ?thesis by (simp add: resume_pending)
  qed
qed

lemma queue_position_Cons:
  "queue_position (a # acts) k =
     (case queue_position [a] k of None \<Rightarrow> None | Some k1 \<Rightarrow> queue_position acts k1)"
  by (cases a) simp_all

lemma run_tracks:
  assumes "k < length (pending (snd st))" and "queue_position acts k = Some k'"
  shows "k' < length (pending (snd (run acts st))) \<and>
         pending (snd (run acts st)) ! k' = pending (snd st) ! k"
  using assms
proof (induction acts arbitrary: st k)
  case Nil
  then show ?case by (simp add: run_def)
next
  case (Cons a acts)
  from Cons.prems(2) obtain k1 where
    k1: "queue_position [a] k = Some k1" "queue_position acts k1 = Some k'"
    by (auto simp: queue_position_Cons [of a acts k] split: option.splits)
  from step_tracks [OF Cons.prems(1) k1(1)]
  have s: "k1 < length (pending (snd (step a st)))"
    "pending (snd (step a st)) ! k1 = pending (snd st) ! k"
    by simp_all
  from Cons.IH [OF s(1) k1(2)] s(2) show ?case by (simp add: run_def)
qed

lemma queued_save_writes:
  assumes "k0 < length (pending s')" and "pending s' ! k0 = job" and "path d = Some b"
    and "mkdir_ok s' (dir job)" and "write_ok s' b"
    and "queue_position acts k0 = Some k"
  shows "files (snd (resume_save k (run acts (d, s')))) b = Some (serialized job) \<and>
         trace (snd (resume_save k (run acts (d, s'))))
           = trace (snd (run acts (d, s'))) @ [MkdirEnd (dir job), WriteBegin b, WriteEnd b]"
proof -
  obtain d2 s2 where r: "run acts (d, s') = (d2, s2)" by (cases "run acts (d, s')")
  from run_binding [of "(d, s')" acts] r
  have sb: "same_binding (d, s') (d2, s2)" by simp
  then have b: "path d2 = path d" "write_ok s2 = write_ok s'"
    by (simp_all add: same_binding_def)
  from same_binding_mkdir [OF sb] have mk: "mkdir_ok s2 = mkdir_ok s'" by simp
  from run_tracks [of k0 "(d, s')" acts k] assms(1,2,6) r
  have i: "k < length (pending s2)" "pending s2 ! k = job" by simp_all
  from resume_at [OF i, of d2 b] b mk assms(3,4,5) r show ?thesis by simp
qed

section \<open>Documents bound to a bare file name\<close>

text \<open>
  With no directory part in the bound path, every save asks \<open>mkdir\<close> for the empty
  path and fails there: no method of the document changes a file, and every save it
  queues is of that kind again.
\<close>

lemma save_bare: "bare_bound st \<Longrightarrow> bare_bound (save st) \<and> files (snd (save st)) = files (snd st)"
  by (auto simp: bare_bound_def save_def Let_def split: sum.splits option.splits)

lemma saveSync_bare:
  "bare_bound st \<Longrightarrow>
   bare_bound (snd (saveSync st)) \<and> files (snd (snd (saveSync st))) = files (snd st)"
  by (auto simp: bare_bound_def saveSync_def Let_def split: sum.splits option.splits)

lemma list_all_removal: "list_all P xs \<Longrightarrow> list_all P (take i xs @ drop (Suc i) xs)"
  by (auto simp: list_all_iff dest: in_set_takeD in_set_dropD)

lemma resume_bare:
  assumes "bare_bound st"
  shows "bare_bound (resume_save i st) \<and> files (snd (resume_save i st)) = files (snd st)"
proof (cases "i < length (pending (snd st))")
  case True
  from assms have all: "list_all (\<lambda>job. dir job = []) (pending (snd st))"
    by (simp add: bare_bound_def)
  with True have "dir (pending (snd st) ! i) = []"
    by (simp add: list_all_length)
  with True assms list_all_removal [OF all, of i] show ?thesis
    by (simp add: bare_bound_def resume_save_def Let_def)
next
  case False
  with assms show ?thesis by (simp add: resume_save_def Let_def)
qed

lemma notify_bare:
  "bare_bound st \<Longrightarrow>
   bare_bound (snd (notify st)) \<and> files (snd (snd (notify st))) = files (snd st)"
  using save_bare [of st] saveSync_bare [of st] by (simp add: notify_def)

lemma react_bare:
  assumes "bare_bound st"
  shows "bare_bound (snd (react st)) \<and> files (snd (snd (react st))) = files (snd st)"
proof (cases "truthy (reactive (opts (fst st)))")
  case True
  let ?st = "(observeData (deep (opts (fst st))) (fst st), snd st)"
  from assms have "bare_bound ?st" by (simp add: bare_bound_def observeData_def)
  from notify_bare [OF this] True show ?thesis by (simp add: react_def)
next
  case False
  with assms show ?thesis by (simp add: react_def)
qed

lemma mutate_bare:
  assumes "bare_bound st"
  shows "bare_bound (snd (mutate m st)) \<and> files (snd (snd (mutate m st))) = files (snd st)"
proof (cases "apply_mutation m (val (fst st))")
  case (Inl e)
  with assms show ?thesis by (simp add: mutate_def)
next
  case (Inr v)
  let ?st = "((fst st)\<lparr>val := v\<rparr>, snd st)"
  from assms have b: "bare_bound ?st" by (simp add: bare_bound_def)
  from notify_bare [OF b] b Inr show ?thesis by (simp add: mutate_def)
qed

lemma step_bare:
  "bare_bound st \<Longrightarrow> bare_bound (step a st) \<and> files (snd (step a st)) = files (snd st)"
  by (cases a) (simp_all add: mutate_bare save_bare saveSync_bare react_bare resume_bare)

lemma run_bare:
  "bare_bound st \<Longrightarrow> bare_bound (run acts st) \<and> files (snd (run acts st)) = files (snd st)"
proof (induction acts arbitrary: st)
  case Nil
  then show ?case by (simp add: run_def)
next
  case (Cons a acts)
  from step_bare [OF Cons.prems, of a] Cons.IH [of "step a st"] show ?case
    by (simp add: run_def)
qed

lemma new_bare:
  assumes "ReactiveFile_new v os q s = (Inr d, s')"
    and "path d = Some b" and "path_dir b = []"
    and "list_all (\<lambda>job. dir job = []) (pending s)" and "Inr () \<notin> set (settled s)"
  shows "bare_bound (d, s') \<and> files s' = files s"
proof -
  let ?d = "\<lparr>val = v, path = (if truthy_str (saveTo os) then saveTo os else q),
              opts = os, observed = None\<rparr>"
  from new_fields [OF assms(1)] assms(2) have "path ?d = Some b" by simp
  with assms(3,4,5) have b: "bare_bound (?d, s)" by (simp add: bare_bound_def)
  from assms(1) have "snd (react (?d, s)) = (d, s')"
    by (auto simp: ReactiveFile_new_def split: prod.splits sum.splits)
  with react_bare [OF b] show ?thesis by simp
qed

lemma constructed_bare:
  assumes "load p os s = (Inr d, s') \<or> loadSync p os s = (Inr d, s') \<or>
           from_obj obj os s = (Inr d, s')"
    and "path d = Some b" and "path_dir b = []"
    and "list_all (\<lambda>job. dir job = []) (pending s)" and "Inr () \<notin> set (settled s)"
  shows "bare_bound (d, s') \<and> files s' = files s"
proof -
  from assms(1) obtain v ty q where "ReactiveFile_new v (resolved os ty) q s = (Inr d, s')"
    by (auto simp: loadSync_load load_def from_obj_def Let_def
             split: option.splits sum.splits if_splits)
  from new_bare [OF this assms(2,3,4,5)] show ?thesis .
qed

section \<open>Documents that are not observed\<close>

text \<open>Unobserved and not reactive: mutations and \<open>react\<close> leave the system alone.\<close>

lemma mutate_unobserved:
  "observed (fst st) = None \<Longrightarrow>
   snd (snd (mutate m st)) = snd st \<and> observed (fst (snd (mutate m st))) = None \<and>
   opts (fst (snd (mutate m st))) = opts (fst st) \<and>
   path (fst (snd (mutate m st))) = path (fst st)"
  by (cases "apply_mutation m (val (fst st))") (simp_all add: mutate_def notifies_def)

lemma caller_step_idle:
  assumes "observed (fst st) = None" and "\<not> truthy (reactive (opts (fst st)))"
    and "caller_only a"
  shows "snd (step a st) = snd st \<and> observed (fst (step a st)) = None \<and>
         opts (fst (step a st)) = opts (fst st) \<and> path (fst (step a st)) = path (fst st)"
proof (cases a)
  case (Mutate m)
  with mutate_unobserved [OF assms(1), of m] show ?thesis by simp
next
  case React
  with assms(2) show ?thesis using assms(1) by (simp add: react_def)
qed (use assms(3) in simp_all)

lemma caller_run_idle:
  assumes "observed (fst st) = None" and "\<not> truthy (reactive (opts (fst st)))"
    and "\<forall>a \<in> set acts. caller_only a"
  shows "snd (run acts st) = snd st \<and> observed (fst (run acts st)) = None \<and>
         opts (fst (run acts st)) = opts (fst st) \<and> path (fst (run acts st)) = path (fst st)"
  using assms
proof (induction acts arbitrary: st)
  case Nil
  then show ?case by (simp add: run_def)
next
  case (Cons a acts)
  from Cons.prems have c: "caller_only a" by simp
  note s = caller_step_idle [OF Cons.prems(1,2) c]
  have "snd (run acts (step a st)) = snd (step a st) \<and>
        observed (fst (run acts (step a st))) = None \<and>
        opts (fst (run acts (step a st))) = opts (fst (step a st)) \<and>
        path (fst (run acts (step a st))) = path (fst (step a st))"
    using s Cons.prems by (intro Cons.IH) simp_all
  with s show ?case by (simp add: run_def)
qed

section \<open>Traces\<close>

text \<open>Every method appends to the trace a piece in which the writes do not overlap.\<close>

lemma writes_serialized_append:
  "writes_serialized xs \<Longrightarrow> writes_serialized (xs @ ys) = writes_serialized ys"
  by (induction xs rule: writes_serialized.induct) simp_all

lemma save_trace:
  "\<exists>es. trace (snd (save st)) = trace (snd st) @ es \<and> writes_serialized es \<and>
        filter is_write es = [] \<and> files (snd (save st)) = files (snd st)"
  by (simp add: save_def Let_def split: sum.splits option.splits)

lemma saveSync_trace:
  "\<exists>es. trace (snd (snd (saveSync st))) = trace (snd st) @ es \<and> writes_serialized es"
  by (simp add: saveSync_def Let_def split: sum.splits option.splits)

lemma resume_trace:
  "\<exists>es. trace (snd (resume_save i st)) = trace (snd st) @ es \<and> writes_serialized es"
  by (simp add: resume_save_def Let_def split: sum.splits option.splits)

lemma notify_trace:
  "\<exists>es. trace (snd (snd (notify st))) = trace (snd st) @ es \<and> writes_serialized es"
  using save_trace [of st] saveSync_trace [of st] by (auto simp: notify_def)

lemma react_trace:
  "\<exists>es. trace (snd (snd (react st))) = trace (snd st) @ es \<and> writes_serialized es"
proof (cases "truthy (reactive (opts (fst st)))")
  case True
  with notify_trace [of "(observeData (deep (opts (fst st))) (fst st), snd st)"]
  show ?thesis by (simp add: react_def)
next
  case False
  then show ?thesis by (simp add: react_def)
qed

lemma mutate_trace:
  "\<exists>es. trace (snd (snd (mutate m st))) = trace (snd st) @ es \<and> writes_serialized es"
proof (cases "apply_mutation m (val (fst st))")
  case (Inl e)
  then show ?thesis by (simp add: mutate_def)
next
  case (Inr v)
  with notify_trace [of "((fst st)\<lparr>val := v\<rparr>, snd st)"] show ?thesis
    by (simp add: mutate_def)
qed

lemma step_trace:
  "\<exists>es. trace (snd (step a st)) = trace (snd st) @ es \<and> writes_serialized es"
proof (cases a)
  case (Mutate m)
  with mutate_trace [of m st] show ?thesis by simp
next
  case Save
  with save_trace [of st] show ?thesis by auto
next
  case SaveSync
  with saveSync_trace [of st] show ?thesis by simp
next
  case React
  with react_trace [of st] show ?thesis by simp
next
  case (Resume i)
  with resume_trace [of i st] show ?thesis by simp
qed

lemma step_serialized:
  "writes_serialized (trace (snd st)) \<Longrightarrow> writes_serialized (trace (snd (step a st)))"
  using step_trace [of a st] by (auto simp: writes_serialized_append)

lemma run_serialized:
  "writes_serialized (trace (snd st)) \<Longrightarrow> writes_serialized (trace (snd (run acts st)))"
  by (induction acts arbitrary: st) (simp_all add: run_def step_serialized)

section \<open>The example world\<close>

lemma toy_infer: "infer_type None ''conf/settings.toy'' = ''toy''"
  by code_simp

lemma toy_dir: "path_dir ''conf/settings.toy'' = ''conf''"
  by code_simp

lemma unknown_infer: "infer_type None ''f.unknownext'' = ''unknownext''"
  by code_simp

lemma bare_infer: "infer_type None ''settings.toy'' = ''toy''"
  by code_simp

lemma bare_dir: "path_dir ''settings.toy'' = []"
  by code_simp

lemma toy_serialize_n: "toy_serialize [''n'' \<mapsto> int k] = Inr (replicate k CHR ''x'')"
  by (simp add: toy_serialize_def)

lemma toy_env:
  "mkdir_ok toy_system (path_dir ''conf/settings.toy'')"
  "write_ok toy_system ''conf/settings.toy''"
  "mkdir_ok toy_loaded (path_dir ''conf/settings.toy'')"
  "write_ok toy_loaded ''conf/settings.toy''"
  by (simp_all add: toy_dir mkdir_ok_def toy_loaded_def toy_system_def)

lemma toy_options:
  "truthy (reactive (resolved no_options ty))"
  "truthy (asyncSave (resolved no_options ty))"
  "truthy (deep (resolved no_options ty))"
  "type no_options = None" "saveTo no_options = None"
  by (simp_all add: resolved_simps truthy_default no_options_def)

lemma toy_load:
  "load ''conf/settings.toy'' no_options toy_system = (Inr toy_doc, toy_loaded)"
proof -
  have s: "serialize [''n'' \<mapsto> 2] (type_key (type (resolved no_options ''toy''))) toy_system
           = Inr ''xx''"
    using toy_serialize_n [of 2]
    by (simp add: serialize_def resolved_simps type_key_def toy_system_def numeral_2_eq_2)
  have p: "(if truthy_str (saveTo (resolved no_options ''toy''))
            then saveTo (resolved no_options ''toy'') else Some ''conf/settings.toy'')
           = Some ''conf/settings.toy''"
    by (simp add: resolved_simps no_options_def truthy_str_def)
  have "parse ''xx'' ''toy'' toy_system = Inr [''n'' \<mapsto> 2]"
    by (simp add: parse_def toy_system_def toy_parse_def)
  moreover have "files toy_system ''conf/settings.toy'' = Some ''xx''"
    by (simp add: toy_system_def)
  ultimately show ?thesis
    using new_reactive_async [OF toy_options(1,2) s p] toy_infer toy_dir toy_options(3,4)
    by (simp add: load_def Let_def toy_doc_def toy_loaded_def toy_system_def)
qed

lemma bare_load:
  "load ''settings.toy'' no_options bare_system = (Inr bare_doc, bare_loaded)"
proof -
  have s: "serialize [''n'' \<mapsto> 2] (type_key (type (resolved no_options ''toy''))) bare_system
           = Inr ''xx''"
    using toy_serialize_n [of 2]
    by (simp add: serialize_def resolved_simps type_key_def bare_system_def toy_system_def
        numeral_2_eq_2)
  have p: "(if truthy_str (saveTo (resolved no_options ''toy''))
            then saveTo (resolved no_options ''toy'') else Some ''settings.toy'')
           = Some ''settings.toy''"
    by (simp add: resolved_simps no_options_def truthy_str_def)
  have "parse ''xx'' ''toy'' bare_system = Inr [''n'' \<mapsto> 2]"
    by (simp add: parse_def bare_system_def toy_system_def toy_parse_def)
  moreover have "files bare_system ''settings.toy'' = Some ''xx''"
    by (simp add: bare_system_def)
  moreover have "pending bare_system = []" "trace bare_system = []"
    by (simp_all add: bare_system_def toy_system_def)
  ultimately show ?thesis
    using new_reactive_async [OF toy_options(1,2) s p] bare_infer bare_dir toy_options(3,4)
    by (simp add: load_def Let_def bare_doc_def bare_loaded_def)
qed



lemma quiet_load:
  "load ''conf/settings.toy'' quiet_options toy_system = (Inr quiet_doc, toy_system)"
proof -
  have r: "\<not> truthy (reactive (resolved quiet_options ''toy''))"
    by (simp add: resolved_simps truthy_default quiet_options_def)
  have "parse ''xx'' ''toy'' toy_system = Inr [''n'' \<mapsto> 2]"
    by (simp add: parse_def toy_system_def toy_parse_def)
  moreover have "files toy_system ''conf/settings.toy'' = Some ''xx''"
    by (simp add: toy_system_def)
  moreover have "type quiet_options = None" "saveTo quiet_options = None"
    by (simp_all add: no_options_def quiet_options_def)
  ultimately show ?thesis
    using new_not_reactive [OF r, of "[''n'' \<mapsto> 2]" "Some ''conf/settings.toy''" toy_system]
      toy_infer
    by (simp add: load_def Let_def quiet_doc_def resolved_simps truthy_str_def)
qed

lemma quiet_run:
  "run [Mutate (SetProp ''n'' 5), React] (quiet_doc, toy_system)
   = (quiet_doc\<lparr>val := [''n'' \<mapsto> 5]\<rparr>, toy_system)"
  by (simp add: run_def mutate_def notifies_def react_def quiet_doc_def resolved_simps
      truthy_default quiet_options_def)

lemma toy_set3: "apply_mutation (SetProp ''n'' 3) (val toy_doc) = Inr [''n'' \<mapsto> 3]"
  by (simp add: toy_doc_def)

section \<open>Mutations and saves\<close>

text \<open>
  Claim C1, which the code breaks for every bare file name. The claim is that after a
  reactive load every mutation triggers a save after which the file on disk decodes to
  the mutated state. \<open>save\<close> and \<open>saveSync\<close> create \<open>parsePath(this.path).dir\<close> before
  they write, and for a bare file name such as \<open>settings.json\<close> that is the empty path,
  which \<open>mkdir\<close> refuses. So after \<open>load\<close> or \<open>loadSync\<close> with a bound path that has
  no directory part, no sequence of mutations, explicit saves and resumptions, in any
  order, ever changes a file, and no save ever settles well: the saves that the
  mutations trigger all fail before their write, and the file never holds the mutated
  state.
\<close>

theorem bare_file_name_never_saved:
  assumes "load p os s0 = (Inr d0, s1) \<or> loadSync p os s0 = (Inr d0, s1)"
    and "path_dir (if truthy_str (saveTo os) then the (saveTo os) else p) = []"
    and "pending s0 = []" and "settled s0 = []"
  shows "files s1 = files s0 \<and>
         files (snd (run acts (d0, s1))) = files s0 \<and>
         Inr () \<notin> set (settled (snd (run acts (d0, s1))))"
proof -
  from assms(1) have ld: "load p os s0 = (Inr d0, s1)" by (simp add: loadSync_load)
  from load_fields [OF ld]
  have pth: "path d0 = Some (if truthy_str (saveTo os) then the (saveTo os) else p)"
    by simp
  from ld have "load p os s0 = (Inr d0, s1) \<or> loadSync p os s0 = (Inr d0, s1) \<or>
                from_obj Map.empty os s0 = (Inr d0, s1)" by simp
  from constructed_bare [OF this pth assms(2)] assms(3,4)
  have b: "bare_bound (d0, s1)" "files s1 = files s0" by simp_all
  from run_bare [OF b(1), of acts] b(2) show ?thesis by (simp add: bare_bound_def)
qed

text \<open>
  C1 on the example: after loading \<open>settings.toy\<close> from the working directory and
  \<open>doc.val.n = 3\<close>, both saves are rejected at \<open>mkdir\<close> and the file still holds
  \<open>n = 2\<close>.
\<close>

theorem bare_file_name_never_saved_witness:
  "load ''settings.toy'' no_options bare_system = (Inr bare_doc, bare_loaded) \<and>
   path_dir ''settings.toy'' = [] \<and>
   files bare_loaded = files bare_system \<and>
   files (snd (run [Mutate (SetProp ''n'' 3), Resume 0, Resume 0] (bare_doc, bare_loaded)))
     = files bare_system \<and>
   files bare_system ''settings.toy'' = Some ''xx'' \<and>
   val (fst (run [Mutate (SetProp ''n'' 3), Resume 0, Resume 0] (bare_doc, bare_loaded)))
     = [''n'' \<mapsto> 3] \<and>
   settled (snd (run [Mutate (SetProp ''n'' 3), Resume 0, Resume 0] (bare_doc, bare_loaded)))
     = [Inl (FsError ''mkdir''), Inl (FsError ''mkdir'')]"
proof -
  have h1: "load ''settings.toy'' no_options bare_system = (Inr bare_doc, bare_loaded) \<or>
            loadSync ''settings.toy'' no_options bare_system = (Inr bare_doc, bare_loaded)"
    using bare_load by simp
  have h2: "path_dir (if truthy_str (saveTo no_options) then the (saveTo no_options)
                      else ''settings.toy'') = []"
    using bare_dir by (simp add: no_options_def truthy_str_def)
  have h3: "pending bare_system = []" "settled bare_system = []"
    by (simp_all add: bare_system_def toy_system_def)
  have e: "val (fst (run [Mutate (SetProp ''n'' 3), Resume 0, Resume 0] (bare_doc, bare_loaded)))
             = [''n'' \<mapsto> 3] \<and>
           settled (snd (run [Mutate (SetProp ''n'' 3), Resume 0, Resume 0] (bare_doc, bare_loaded)))
             = [Inl (FsError ''mkdir''), Inl (FsError ''mkdir'')]"
    using bare_dir
    by (simp add: run_def mutate_def notifies_def notify_def save_def resume_save_def
        bare_doc_def bare_loaded_def bare_system_def toy_system_def resolved_simps truthy_default
        no_options_def serialize_def type_key_def toy_serialize_def Let_def)
  have f: "files bare_system ''settings.toy'' = Some ''xx''" by (simp add: bare_system_def)
  from bare_file_name_never_saved [OF h1 h2 h3,
      of "[Mutate (SetProp ''n'' 3), Resume 0, Resume 0]"] bare_load bare_dir e f
  show ?thesis by simp
qed

text \<open>
  What holds when the bound path has a directory that can be created: after a reactive
  load, and whatever has happened since (\<open>acts\<close>), a mutation that the observation
  covers saves the mutated object: every mutation of the root's own properties, and
  with \<open>deep\<close> (the default) every mutation inside a nested container. In blocking
  mode the file holds the serialization of the mutated object when the statement
  returns. In non-blocking mode the statement returns with the files untouched, and
  the file holds that serialization when the mutation's own save is resumed, whatever
  has happened in between (\<open>later\<close>) and in whatever order the other pending saves
  were resumed. The observer's part is the spec's: the callback runs after the
  mutation has taken effect.
\<close>

lemma mutation_save_reaches_file:
  assumes "load p os s0 = (Inr d0, s1) \<or> loadSync p os s0 = (Inr d0, s1)"
    and "reactive os \<noteq> Some False"
    and "run acts (d0, s1) = (d, s)"
    and "nested m \<longrightarrow> deep os \<noteq> Some False"
    and "apply_mutation m (val d) = Inr v"
    and "ty = infer_type (type os) p"
    and "b = (if truthy_str (saveTo os) then the (saveTo os) else p)"
    and "serialize v ty s = Inr text"
    and "mkdir_ok s (path_dir b)" and "write_ok s b"
  shows "(asyncSave os = Some False \<longrightarrow>
            mutate m (d, s) =
              (Inr (), (d\<lparr>val := v\<rparr>,
                        s\<lparr>files := (files s)(b \<mapsto> text),
                          trace := trace s @ [MkdirBegin (path_dir b), MkdirEnd (path_dir b),
                                              WriteBegin b, WriteEnd b]\<rparr>))) \<and>
         (asyncSave os \<noteq> Some False \<and> queue_position later (length (pending s)) = Some k \<longrightarrow>
            fst (mutate m (d, s)) = Inr () \<and>
            files (snd (snd (mutate m (d, s)))) = files s \<and>
            files (snd (resume_save k (run later (snd (mutate m (d, s)))))) b = Some text)"
proof -
  from assms(1) have ld: "load p os s0 = (Inr d0, s1)" by (simp add: loadSync_load)
  from load_fields [OF ld] assms(2,6,7)
  have d0: "opts d0 = resolved os ty" "path d0 = Some b"
           "observed d0 = Some (deep os \<noteq> Some False)"
    by simp_all
  then have "armed (d0, s1)"
    by (simp add: armed_def resolved_simps truthy_default)
  from run_armed [OF this, of acts] run_binding [of "(d0, s1)" acts] assms(3) d0
  have d: "opts d = resolved os ty" "path d = Some b"
          "observed d = Some (deep os \<noteq> Some False)"
    by (simp_all add: armed_def same_binding_def resolved_simps truthy_default)
  let ?d = "d\<lparr>val := v\<rparr>"
  have n: "notifies (observed d) m"
    using d(3) assms(4) by (simp add: notifies_def)
  have mu: "mutate m (d, s) = notify (?d, s)"
    using n assms(5) by (simp add: mutate_def)
  have ser: "serialize (val ?d) (type_key (type (opts ?d))) s = Inr text"
    using assms(8) d(1) by (simp add: resolved_simps type_key_def)
  have pth: "path ?d = Some b" using d(2) by simp
  have sync: "mutate m (d, s) =
              (Inr (), (?d, s\<lparr>files := (files s)(b \<mapsto> text),
                          trace := trace s @ [MkdirBegin (path_dir b), MkdirEnd (path_dir b),
                                              WriteBegin b, WriteEnd b]\<rparr>))"
    if "asyncSave os = Some False"
  proof -
    from that have "notify (?d, s) = saveSync (?d, s)"
      using d(1) by (simp add: notify_def resolved_simps truthy_default)
    with saveSync_ok [OF ser pth assms(9,10)] mu show ?thesis by simp
  qed
  have async: "fst (mutate m (d, s)) = Inr () \<and>
               files (snd (snd (mutate m (d, s)))) = files s \<and>
               files (snd (resume_save k (run later (snd (mutate m (d, s)))))) b = Some text"
    if a: "asyncSave os \<noteq> Some False" and q: "queue_position later (length (pending s)) = Some k"
  proof -
    let ?job = "\<lparr>serialized = text, dir = path_dir b\<rparr>"
    let ?s' = "s\<lparr>pending := pending s @ [?job], trace := trace s @ [MkdirBegin (path_dir b)]\<rparr>"
    from a have "truthy (asyncSave (opts ?d))"
      using d(1) by (simp add: resolved_simps truthy_default)
    from notify_async [OF this ser pth] mu have mu': "mutate m (d, s) = (Inr (), (?d, ?s'))"
      by simp
    have "files (snd (resume_save k (run later (?d, ?s')))) b = Some (serialized ?job)"
      using queued_save_writes [of "length (pending s)" ?s' ?job ?d b later k] pth assms(9,10) q
      by simp
    with mu' show ?thesis by simp
  qed
  from sync async show ?thesis by blast
qed

text \<open>
  That is about the moment the mutation's own save has run. A save that was issued
  earlier and is resumed later writes its older snapshot over it: here the
  constructor's save, resumed last, leaves the file with \<open>n = 2\<close> while the object
  has \<open>n = 3\<close>.
\<close>

lemma earlier_save_resumed_later:
  "files (snd (run [Mutate (SetProp ''n'' 3), Resume 1, Resume 0] (toy_doc, toy_loaded)))
     ''conf/settings.toy'' = Some ''xx'' \<and>
   val (fst (run [Mutate (SetProp ''n'' 3), Resume 1, Resume 0] (toy_doc, toy_loaded)))
     = [''n'' \<mapsto> 3]"
  using toy_dir
  by (simp add: run_def mutate_def notifies_def notify_def save_def resume_save_def mkdir_ok_def
      toy_doc_def toy_loaded_def toy_system_def resolved_simps truthy_default no_options_def
      serialize_def type_key_def toy_serialize_def Let_def)

text \<open>
  Claim C2. In non-blocking mode a mutation that notifies returns normally at once,
  with the files as they were and nothing written: the mutated object has been
  serialized, its write stands at the end of the queue of pending saves, and the
  directory operation it waits for has begun. That save is scheduled to run: in every
  continuation that has not resumed it, in whatever order the other saves were
  resumed, it is still in the queue, and resuming it writes the serialized text to
  the bound path, given that the file system lets it. (When the object cannot be
  serialized there is nothing to write, and the save is rejected at once.) And in
  every run from a state whose trace is serialized, whatever the order of the
  resumptions, the trace stays serialized: a write once begun ends before anything
  else begins, since \<open>save\<close> writes with \<open>writeFileSync\<close> inside one turn of the event
  loop.
\<close>

theorem nonblocking_serialized_writes:
  "(truthy (asyncSave (opts d)) \<and> notifies (observed d) m \<and> apply_mutation m (val d) = Inr v \<and>
    serialize v (type_key (type (opts d))) s = Inr text \<and> path d = Some b
    \<longrightarrow> mutate m (d, s) =
          (Inr (), (d\<lparr>val := v\<rparr>,
                    s\<lparr>pending := pending s @ [\<lparr>serialized = text, dir = path_dir b\<rparr>],
                      trace := trace s @ [MkdirBegin (path_dir b)]\<rparr>)) \<and>
        (queue_position acts (length (pending s)) = Some k \<and>
         mkdir_ok s (path_dir b) \<and> write_ok s b
         \<longrightarrow> files (snd (resume_save k (run acts (snd (mutate m (d, s)))))) b = Some text \<and>
             trace (snd (resume_save k (run acts (snd (mutate m (d, s))))))
               = trace (snd (run acts (snd (mutate m (d, s)))))
                 @ [MkdirEnd (path_dir b), WriteBegin b, WriteEnd b])) \<and>
   (truthy (asyncSave (opts d)) \<and> notifies (observed d) m \<and> apply_mutation m (val d) = Inr v \<and>
    serialize v (type_key (type (opts d))) s = Inl e
    \<longrightarrow> mutate m (d, s) = (Inr (), (d\<lparr>val := v\<rparr>, s\<lparr>settled := settled s @ [Inl e]\<rparr>))) \<and>
   (writes_serialized (trace s) \<longrightarrow> writes_serialized (trace (snd (run acts (d, s)))))"
proof -
  let ?d = "d\<lparr>val := v\<rparr>"
  let ?job = "\<lparr>serialized = text, dir = path_dir b\<rparr>"
  let ?s' = "s\<lparr>pending := pending s @ [?job], trace := trace s @ [MkdirBegin (path_dir b)]\<rparr>"
  have queued: "mutate m (d, s) = (Inr (), (?d, ?s'))"
    if "truthy (asyncSave (opts d))" "notifies (observed d) m" "apply_mutation m (val d) = Inr v"
       "serialize v (type_key (type (opts d))) s = Inr text" "path d = Some b"
  proof -
    from that(2,3) have "mutate m (d, s) = notify (?d, s)" by (simp add: mutate_def)
    moreover from that(1) have "truthy (asyncSave (opts ?d))" by simp
    moreover from that(4) have "serialize (val ?d) (type_key (type (opts ?d))) s = Inr text"
      by simp
    moreover from that(5) have "path ?d = Some b" by simp
    ultimately show ?thesis using notify_async [of ?d s "text" b] by simp
  qed
  have runs: "files (snd (resume_save k (run acts (?d, ?s')))) b = Some text \<and>
              trace (snd (resume_save k (run acts (?d, ?s'))))
                = trace (snd (run acts (?d, ?s'))) @ [MkdirEnd (path_dir b), WriteBegin b, WriteEnd b]"
    if "path d = Some b" "queue_position acts (length (pending s)) = Some k"
       "mkdir_ok s (path_dir b)" "write_ok s b"
    using queued_save_writes [of "length (pending s)" ?s' ?job ?d b acts k] that by simp
  have rejected: "mutate m (d, s) = (Inr (), (?d, s\<lparr>settled := settled s @ [Inl e]\<rparr>))"
    if "truthy (asyncSave (opts d))" "notifies (observed d) m" "apply_mutation m (val d) = Inr v"
       "serialize v (type_key (type (opts d))) s = Inl e"
  proof -
    from that(2,3) have "mutate m (d, s) = notify (?d, s)" by (simp add: mutate_def)
    moreover from that(1) have "truthy (asyncSave (opts ?d))" by simp
    moreover from that(4) have "serialize (val ?d) (type_key (type (opts ?d))) s = Inl e"
      by simp
    ultimately show ?thesis using notify_async_rejected [of ?d s e] by simp
  qed
  have safe: "writes_serialized (trace (snd (run acts (d, s))))"
    if "writes_serialized (trace s)"
    using that run_serialized [of "(d, s)" acts] by simp
  show ?thesis
  proof (intro conjI impI)
    assume h: "truthy (asyncSave (opts d)) \<and> notifies (observed d) m \<and>
               apply_mutation m (val d) = Inr v \<and>
               serialize v (type_key (type (opts d))) s = Inr text \<and> path d = Some b"
    then show q: "mutate m (d, s) = (Inr (), (?d, ?s'))" using queued by blast
    {
      assume r: "queue_position acts (length (pending s)) = Some k \<and>
                 mkdir_ok s (path_dir b) \<and> write_ok s b"
      from h r runs have rr: "files (snd (resume_save k (run acts (?d, ?s')))) b = Some text \<and>
              trace (snd (resume_save k (run acts (?d, ?s'))))
                = trace (snd (run acts (?d, ?s'))) @ [MkdirEnd (path_dir b), WriteBegin b, WriteEnd b]"
        by blast
      from rr q show "files (snd (resume_save k (run acts (snd (mutate m (d, s)))))) b = Some text"
        by simp
      from rr q show "trace (snd (resume_save k (run acts (snd (mutate m (d, s))))))
               = trace (snd (run acts (snd (mutate m (d, s)))))
                 @ [MkdirEnd (path_dir b), WriteBegin b, WriteEnd b]"
        by simp
    }
  next
    assume "truthy (asyncSave (opts d)) \<and> notifies (observed d) m \<and>
            apply_mutation m (val d) = Inr v \<and>
            serialize v (type_key (type (opts d))) s = Inl e"
    then show "mutate m (d, s) = (Inr (), (?d, s\<lparr>settled := settled s @ [Inl e]\<rparr>))"
      using rejected by blast
  next
    assume "writes_serialized (trace s)"
    then show "writes_serialized (trace (snd (run acts (d, s))))" by (rule safe)
  qed
qed

text \<open>
  C2 on the example: the mutation's save queued behind the constructor's, and written
  after that one has been resumed.
\<close>

theorem nonblocking_serialized_writes_witness:
  "truthy (asyncSave (opts toy_doc)) \<and>
   notifies (observed toy_doc) (SetProp ''n'' (3::int)) \<and>
   queue_position [Resume 0 :: int action] (length (pending toy_loaded)) = Some 0 \<and>
   writes_serialized (trace toy_loaded) \<and>
   mutate (SetProp ''n'' 3) (toy_doc, toy_loaded) =
     (Inr (), (toy_doc\<lparr>val := [''n'' \<mapsto> 3]\<rparr>,
               toy_loaded\<lparr>pending := pending toy_loaded @
                            [\<lparr>serialized = ''xxx'', dir = path_dir ''conf/settings.toy''\<rparr>],
                          trace := trace toy_loaded @
                            [MkdirBegin (path_dir ''conf/settings.toy'')]\<rparr>)) \<and>
   files (snd (resume_save 0 (run [Resume 0] (snd (mutate (SetProp ''n'' 3) (toy_doc, toy_loaded))))))
     ''conf/settings.toy'' = Some ''xxx'' \<and>
   writes_serialized (trace (snd (run [Resume 0] (toy_doc, toy_loaded))))"
proof -
  have h1: "truthy (asyncSave (opts toy_doc))"
    by (simp add: toy_doc_def resolved_simps truthy_default no_options_def)
  have h2: "notifies (observed toy_doc) (SetProp ''n'' (3::int))"
    by (simp add: toy_doc_def notifies_def)
  have h3: "serialize [''n'' \<mapsto> 3] (type_key (type (opts toy_doc))) toy_loaded = Inr ''xxx''"
    using toy_serialize_n [of 3]
    by (simp add: serialize_def toy_doc_def resolved_simps type_key_def toy_loaded_def
        toy_system_def eval_nat_numeral)
  have h4: "path toy_doc = Some ''conf/settings.toy''" by (simp add: toy_doc_def)
  have h5: "queue_position [Resume 0 :: int action] (length (pending toy_loaded)) = Some 0"
    by (simp add: toy_loaded_def)
  have h6: "writes_serialized (trace toy_loaded)" by (simp add: toy_loaded_def)
  from nonblocking_serialized_writes [of toy_doc "SetProp ''n'' 3" "[''n'' \<mapsto> 3]" toy_loaded
      "''xxx''" "''conf/settings.toy''" "[Resume 0]" 0]
    h1 h2 h3 h4 h5 h6 toy_set3 toy_env(3,4)
  show ?thesis by blast
qed

text \<open>
  The trace when the two saves are resumed in the reverse order: the two directory
  operations overlap, the two writes do not.
\<close>

lemma example_trace:
  "trace (snd (run [Mutate (SetProp ''n'' 3), Resume 1, Resume 0] (toy_doc, toy_loaded)))
   = [MkdirBegin ''conf'', MkdirBegin ''conf'',
      MkdirEnd ''conf'', WriteBegin ''conf/settings.toy'', WriteEnd ''conf/settings.toy'',
      MkdirEnd ''conf'', WriteBegin ''conf/settings.toy'', WriteEnd ''conf/settings.toy'']"
  using toy_dir
  by (simp add: run_def mutate_def notifies_def notify_def save_def resume_save_def mkdir_ok_def
      toy_doc_def toy_loaded_def toy_system_def resolved_simps truthy_default no_options_def
      serialize_def type_key_def toy_serialize_def Let_def)

section \<open>Formats without a codec\<close>

text \<open>
  Claim C3. With no codec registered for a format, decoding and encoding fail: \<open>parse\<close>
  and \<open>serialize\<close> raise (the runtime's \<open>TypeError\<close>, which is how the class reports
  an unknown format), \<open>load\<close> and \<open>loadSync\<close> of a readable file whose format is
  inferred to be that one raise the same and return no document, \<open>saveSync\<close> raises it
  and \<open>save\<close> rejects with it, and neither writes a file nor queues a write.
\<close>

theorem unknown_format_fails:
  assumes "types s ty = None" and "files s p = Some data"
    and "infer_type (type os) p = ty" and "type (opts d) = Some ty"
  shows "parse str ty s = Inl TypeError \<and>
         serialize obj ty s = Inl TypeError \<and>
         load p os s = (Inl TypeError, s) \<and>
         loadSync p os s = (Inl TypeError, s) \<and>
         saveSync (d, s) = (Inl TypeError, (d, s)) \<and>
         save (d, s) = (d, s\<lparr>settled := settled s @ [Inl TypeError]\<rparr>)"
  using assms
  by (simp add: parse_def serialize_def load_def loadSync_def saveSync_def save_def type_key_def)

text \<open>C3 on the example: \<open>load('f.unknownext')\<close>, and both saves of a document of that format.\<close>

theorem unknown_format_fails_witness:
  "types toy_system ''unknownext'' = None \<and>
   files toy_system ''f.unknownext'' = Some ''x'' \<and>
   infer_type (type no_options) ''f.unknownext'' = ''unknownext'' \<and>
   parse ''x'' ''unknownext'' toy_system = Inl TypeError \<and>
   load ''f.unknownext'' no_options toy_system = (Inl TypeError, toy_system) \<and>
   saveSync (toy_doc\<lparr>opts := resolved no_options ''unknownext''\<rparr>, toy_system)
     = (Inl TypeError, (toy_doc\<lparr>opts := resolved no_options ''unknownext''\<rparr>, toy_system)) \<and>
   files (snd (save (toy_doc\<lparr>opts := resolved no_options ''unknownext''\<rparr>, toy_system)))
     = files toy_system"
proof -
  have h1: "types toy_system ''unknownext'' = None" by (simp add: toy_system_def)
  have h2: "files toy_system ''f.unknownext'' = Some ''x''" by (simp add: toy_system_def)
  have h3: "infer_type (type no_options) ''f.unknownext'' = ''unknownext''"
    using unknown_infer by (simp add: no_options_def)
  have h4: "type (opts (toy_doc\<lparr>opts := resolved no_options ''unknownext''\<rparr>)) = Some ''unknownext''"
    by (simp add: resolved_simps)
  from unknown_format_fails [OF h1 h2 h3 h4, of "''x''"] h1 h2 h3 show ?thesis by simp
qed




section \<open>Creating a document\<close>

text \<open>
  Claim C5. \<open>from\<close> needs a destination: when \<open>saveTo\<close> is absent (or empty) it raises
  the error \<open>saveTo path must be defined!\<close>, returns no document and changes nothing.
\<close>

theorem from_requires_saveTo:
  assumes "\<not> truthy_str (saveTo os)"
  shows "from_obj obj os s = (Inl (Error ''saveTo path must be defined!''), s)"
  using assms by (simp add: from_obj_def)

text \<open>C5 on the example: \<open>from\<close> with a format and no \<open>saveTo\<close>.\<close>

theorem from_requires_saveTo_witness:
  "\<not> truthy_str (saveTo \<lparr>encoding = None, asyncSave = None, saveTo = None, deep = None,
                          reactive = None, type = Some ''toy''\<rparr>) \<and>
   from_obj [''n'' \<mapsto> 1]
     \<lparr>encoding = None, asyncSave = None, saveTo = None, deep = None, reactive = None,
      type = Some ''toy''\<rparr> toy_system
   = (Inl (Error ''saveTo path must be defined!''), toy_system)"
proof -
  have h: "\<not> truthy_str (saveTo \<lparr>encoding = None, asyncSave = None, saveTo = None, deep = None,
                          reactive = None, type = Some ''toy''\<rparr>)"
    by (simp add: truthy_str_def)
  from from_requires_saveTo [OF h] h show ?thesis by simp
qed

text \<open>
  Claim C6, amended. When no format is given and the file name has a \<open>.\<close> after its
  first character, the format is the text after the last \<open>.\<close> of the file name, with
  no leading dot and exactly as it is written: no letter is lower-cased.
\<close>

theorem inferred_format:
  assumes "\<not> truthy_str ty" and "name \<noteq> []" and "CHR ''/'' \<notin> set name"
    and "CHR ''.'' \<notin> set e" and "CHR ''/'' \<notin> set e"
    and "pre = [] \<or> last pre = CHR ''/''"
  shows "infer_type ty (pre @ name @ ''.'' @ e) = e"
proof -
  have b: "path_base (pre @ name @ ''.'' @ e) = name @ ''.'' @ e"
    using assms by (intro base_of_file) auto
  have a: "after_last_dot (name @ ''.'' @ e) = e"
    using assms(4) by (rule after_last_dot_file)
  have pe: "path_ext (pre @ name @ ''.'' @ e)
            = (if name @ ''.'' @ e = ''..'' then [] else CHR ''.'' # e)"
    unfolding path_ext_def Let_def b a using assms(2) by simp
  have "drop 1 (path_ext (pre @ name @ ''.'' @ e)) = e"
  proof (cases "name @ ''.'' @ e = ''..''")
    case True
    then have "length (name @ ''.'' @ e) = 2" by simp
    with assms(2) have "e = []" by (cases name) auto
    with True pe show ?thesis by simp
  next
    case False
    with pe show ?thesis by simp
  qed
  with assms(1) show ?thesis by (simp add: infer_type_def)
qed

text \<open>C6 on the example: \<open>conf/Settings.JSON\<close> has the format \<open>JSON\<close>.\<close>

theorem inferred_format_witness:
  "\<not> truthy_str None \<and> infer_type None (''conf/'' @ ''Settings'' @ ''.'' @ ''JSON'') = ''JSON''"
proof -
  have h: "\<not> truthy_str None" by (simp add: truthy_str_def)
  from inferred_format [OF h, of "''Settings''" "''JSON''" "''conf/''"] h show ?thesis by simp
qed

text \<open>
  The claim as it was stated fails: \<open>Settings.JSON\<close> gets \<open>JSON\<close>, not \<open>json\<close>, and
  the file name \<open>.json\<close> gets the empty format, not \<open>json\<close>.
\<close>

theorem inferred_format_counterexample:
  "infer_type None ''conf/Settings.JSON'' = ''JSON'' \<and>
   spec_format ''conf/Settings.JSON'' = ''json'' \<and>
   infer_type None ''.json'' = [] \<and>
   spec_format ''.json'' = ''json''"
  by code_simp

text \<open>
  Claim C7. A document created with \<open>reactive: false\<close> by \<open>load\<close>, \<open>loadSync\<close> or
  \<open>from\<close> is created without a write, and no sequence of mutations and calls of
  \<open>react\<close> changes the files, queues a save or leaves an event in the trace: the
  system stays as it was. An explicit \<open>saveSync\<close> then writes the current object to
  the bound path, and an explicit \<open>save\<close> does so when its pending part is resumed.
\<close>

theorem no_write_when_not_reactive:
  assumes "load p os s0 = (Inr d0, s1) \<or> loadSync p os s0 = (Inr d0, s1) \<or>
           from_obj obj os s0 = (Inr d0, s1)"
    and "reactive os = Some False"
    and "\<forall>a \<in> set acts. caller_only a"
  shows "s1 = s0 \<and> snd (run acts (d0, s1)) = s0 \<and>
         (serialize (val (fst (run acts (d0, s1)))) (type_key (type (opts d0))) s0 = Inr text \<and>
          path d0 = Some b \<and> mkdir_ok s0 (path_dir b) \<and> write_ok s0 b
          \<longrightarrow> files (snd (step SaveSync (run acts (d0, s1)))) = (files s0)(b \<mapsto> text) \<and>
              files (snd (step Save (run acts (d0, s1)))) = files s0 \<and>
              files (snd (resume_save (length (pending s0)) (step Save (run acts (d0, s1)))))
                = (files s0)(b \<mapsto> text))"
proof -
  from constructed_fields [OF assms(1)] assms(2)
  have c: "s1 = s0" "observed d0 = None" "\<not> truthy (reactive (opts d0))"
    by (auto simp: resolved_simps truthy_default)
  obtain d s where ds: "run acts (d0, s1) = (d, s)" by (cases "run acts (d0, s1)")
  from caller_run_idle [of "(d0, s1)" acts] c assms(3) ds
  have r: "s = s0" "opts d = opts d0" "path d = path d0"
    by simp_all
  have "files (snd (step SaveSync (d, s0))) = (files s0)(b \<mapsto> text) \<and>
        files (snd (step Save (d, s0))) = files s0 \<and>
        files (snd (resume_save (length (pending s0)) (step Save (d, s0))))
          = (files s0)(b \<mapsto> text)"
    if ser: "serialize (val d) (type_key (type (opts d))) s0 = Inr text"
      and pth: "path d = Some b" and mk: "mkdir_ok s0 (path_dir b)" and wr: "write_ok s0 b"
  proof -
    note sync = saveSync_ok [OF ser pth mk wr]
    note async = save_ok [OF ser pth]
    let ?s' = "s0\<lparr>pending := pending s0 @ [\<lparr>serialized = text, dir = path_dir b\<rparr>],
                  trace := trace s0 @ [MkdirBegin (path_dir b)]\<rparr>"
    have "files (snd (resume_save (length (pending s0)) (d, ?s'))) = (files ?s')(b \<mapsto> text)"
      using resume_last [of ?s' s0 "\<lparr>serialized = text, dir = path_dir b\<rparr>" d b] pth mk wr
      by simp
    with sync async show ?thesis by simp
  qed
  with c ds r show ?thesis by simp
qed

text \<open>C7 on the example: a mutation and a \<open>react\<close> write nothing, \<open>saveSync\<close> writes.\<close>

theorem no_write_when_not_reactive_witness:
  "reactive quiet_options = Some False \<and>
   load ''conf/settings.toy'' quiet_options toy_system = (Inr quiet_doc, toy_system) \<and>
   snd (run [Mutate (SetProp ''n'' 5), React] (quiet_doc, toy_system)) = toy_system \<and>
   files (snd (step SaveSync (run [Mutate (SetProp ''n'' 5), React] (quiet_doc, toy_system))))
     = (files toy_system)(''conf/settings.toy'' \<mapsto> ''xxxxx'')"
proof -
  let ?acts = "[Mutate (SetProp ''n'' (5::int)), React]"
  have h1: "load ''conf/settings.toy'' quiet_options toy_system = (Inr quiet_doc, toy_system) \<or>
            loadSync ''conf/settings.toy'' quiet_options toy_system = (Inr quiet_doc, toy_system) \<or>
            from_obj Map.empty quiet_options toy_system = (Inr quiet_doc, toy_system)"
    using quiet_load by simp
  have h2: "reactive quiet_options = Some False" by (simp add: quiet_options_def)
  have h3: "\<forall>a \<in> set ?acts. caller_only a" by simp
  have h4: "serialize (val (fst (run ?acts (quiet_doc, toy_system))))
              (type_key (type (opts quiet_doc))) toy_system = Inr ''xxxxx''"
  proof -
    have "val (fst (run ?acts (quiet_doc, toy_system))) = [''n'' \<mapsto> 5]"
      by (simp add: quiet_run)
    moreover have "type_key (type (opts quiet_doc)) = ''toy''"
      by (simp add: quiet_doc_def resolved_simps type_key_def)
    moreover have "serialize [''n'' \<mapsto> 5] ''toy'' toy_system = Inr ''xxxxx''"
      using toy_serialize_n [of 5]
      by (simp add: serialize_def toy_system_def eval_nat_numeral)
    ultimately show ?thesis by simp
  qed
  have h5: "path quiet_doc = Some ''conf/settings.toy''" by (simp add: quiet_doc_def)
  note h6 = toy_env(1)
  note h7 = toy_env(2)
  from no_write_when_not_reactive [OF h1 h2 h3, of "''xxxxx''" "''conf/settings.toy''"]
    h2 h4 h5 h6 h7 quiet_load
  show ?thesis by simp
qed




section \<open>Registering and aliasing\<close>

text \<open>
  Claim C9. After \<open>registerType f prs ser\<close>, in any registry and so whatever \<open>f\<close> had
  before, decoding a text under \<open>f\<close> is \<open>prs\<close> of the text and encoding an object under
  \<open>f\<close> is \<open>ser\<close> of the object; registering raises nothing.
\<close>

theorem registerType_last_wins:
  "fst (registerType f prs ser s) = Inr () \<and>
   parse t f (snd (registerType f prs ser s)) = prs t \<and>
   serialize obj f (snd (registerType f prs ser s)) = ser obj"
  by (simp add: registerType_def parse_def serialize_def)

text \<open>
  Claim C10. After aliasing \<open>a\<close> to a registered format \<open>b\<close>, decoding under \<open>a\<close>
  and under \<open>b\<close> give the same result, that of \<open>b\<close>'s parse function, and encoding
  under \<open>a\<close> and under \<open>b\<close> give that of \<open>b\<close>'s serialize function.
\<close>

theorem assignType_copies_codec:
  assumes "types s b = Some (prs, ser)"
  shows "fst (assignType a b s) = Inr () \<and>
         parse t a (snd (assignType a b s)) = prs t \<and>
         parse t b (snd (assignType a b s)) = prs t \<and>
         serialize obj a (snd (assignType a b s)) = ser obj \<and>
         serialize obj b (snd (assignType a b s)) = ser obj"
  using assms by (simp add: assignType_def parse_def serialize_def)

text \<open>C10 on the example: \<open>t2\<close> aliased to \<open>toy\<close>.\<close>

theorem assignType_copies_codec_witness:
  "types toy_system ''toy'' = Some (toy_parse, toy_serialize) \<and>
   parse ''xxx'' ''t2'' (snd (assignType ''t2'' ''toy'' toy_system)) = toy_parse ''xxx'' \<and>
   parse ''xxx'' ''toy'' (snd (assignType ''t2'' ''toy'' toy_system)) = toy_parse ''xxx''"
proof -
  have h: "types toy_system ''toy'' = Some (toy_parse, toy_serialize)"
    by (simp add: toy_system_def)
  from assignType_copies_codec [OF h, of "''t2''" "''xxx''"] h show ?thesis by simp
qed

end
